theory Spec2Isabelle
  imports Complex_Main "HOL-Library.Sublist" "HOL-Library.AList"
begin

section \<open>Python values\<close>

text \<open>
  The values that flow through \<^verbatim>\<open>app.py\<close>: what \<^verbatim>\<open>json.loads\<close> and
  \<^verbatim>\<open>response.json()\<close> return (None, booleans, integers, floats, strings,
  lists and dictionaries), and tuples, which \<^verbatim>\<open>json.dumps\<close> also accepts.
  A dictionary is an association list in insertion order, read with \<open>map_of\<close> and
  written with \<open>AList.update\<close>; text is \<open>string\<close>. A float is represented by the
  real number it denotes.
\<close>

datatype py =
    PNone
  | PBool bool
  | PInt int
  | PFloat real
  | PStr string
  | PList "py list"
  | PTuple "py list"
  | PDict "(py \<times> py) list"

datatype exn =
    RequestException
  | JSONDecodeError
  | AttributeError
  | TypeError
  | KeyError
  | ValueError
  | BinasciiError
  | UnicodeDecodeError

text \<open>\<^verbatim>\<open>bool(x)\<close>, as used by \<^verbatim>\<open>not x\<close>, \<^verbatim>\<open>if x\<close> and \<^verbatim>\<open>x and y\<close>.\<close>

fun truthy :: "py \<Rightarrow> bool" where
  "truthy PNone = False"
| "truthy (PBool b) = b"
| "truthy (PInt i) = (i \<noteq> 0)"
| "truthy (PFloat r) = (r \<noteq> 0)"
| "truthy (PStr s) = (s \<noteq> [])"
| "truthy (PList xs) = (xs \<noteq> [])"
| "truthy (PTuple xs) = (xs \<noteq> [])"
| "truthy (PDict kvs) = (kvs \<noteq> [])"

text \<open>\<^verbatim>\<open>x.get(k)\<close> and \<^verbatim>\<open>x.get(k, default)\<close>: only a dictionary has the method.\<close>

fun get_default :: "py \<Rightarrow> string \<Rightarrow> py \<Rightarrow> exn + py" where
  "get_default (PDict kvs) k d = Inr (case map_of kvs (PStr k) of None \<Rightarrow> d | Some v \<Rightarrow> v)"
| "get_default _ k d = Inl AttributeError"

definition get :: "py \<Rightarrow> string \<Rightarrow> exn + py" where
  "get x k = get_default x k PNone"

text \<open>
  \<^verbatim>\<open>k in x\<close> for a string \<open>k\<close>: a key of a dictionary, an element of a list or
  tuple, a substring of a string; anything else is not a container.
\<close>

fun contains :: "string \<Rightarrow> py \<Rightarrow> exn + bool" where
  "contains k (PDict kvs) = Inr (PStr k \<in> fst ` set kvs)"
| "contains k (PList xs) = Inr (PStr k \<in> set xs)"
| "contains k (PTuple xs) = Inr (PStr k \<in> set xs)"
| "contains k (PStr s) = Inr (sublist k s)"
| "contains k _ = Inl TypeError"

text \<open>\<^verbatim>\<open>x[k]\<close> for a string \<open>k\<close>: sequences want integer indices.\<close>

fun subscript :: "py \<Rightarrow> string \<Rightarrow> exn + py" where
  "subscript (PDict kvs) k = (case map_of kvs (PStr k) of None \<Rightarrow> Inl KeyError | Some v \<Rightarrow> Inr v)"
| "subscript _ k = Inl TypeError"

text \<open>\<^verbatim>\<open>x[k] = v\<close> on a dictionary: an existing key keeps its place.\<close>

fun setitem :: "py \<Rightarrow> string \<Rightarrow> py \<Rightarrow> exn + py" where
  "setitem (PDict kvs) k v = Inr (PDict (AList.update (PStr k) v kvs))"
| "setitem _ k v = Inl TypeError"

fun startswith :: "py \<Rightarrow> string \<Rightarrow> exn + bool" where
  "startswith (PStr s) p = Inr (prefix p s)"
| "startswith _ p = Inl AttributeError"

text \<open>\<^verbatim>\<open>for x in v\<close>: the elements of a list or tuple, the characters of a string,
  the keys of a dictionary.\<close>

fun iterate :: "py \<Rightarrow> exn + py list" where
  "iterate (PList xs) = Inr xs"
| "iterate (PTuple xs) = Inr xs"
| "iterate (PStr s) = Inr (map (\<lambda>c. PStr [c]) s)"
| "iterate (PDict kvs) = Inr (map fst kvs)"
| "iterate _ = Inl TypeError"

text \<open>
  Equality of hashable values, as a set compares its members: numbers by value across
  bool, int and float, tuples element by element.
\<close>

fun number :: "py \<Rightarrow> real option" where
  "number (PBool b) = Some (if b then 1 else 0)"
| "number (PInt i) = Some (of_int i)"
| "number (PFloat r) = Some r"
| "number _ = None"

fun py_eq :: "py \<Rightarrow> py \<Rightarrow> bool" where
  "py_eq PNone PNone = True"
| "py_eq (PStr s) (PStr t) = (s = t)"
| "py_eq (PTuple xs) (PTuple ys) = list_all2 py_eq xs ys"
| "py_eq x y = (case (number x, number y) of (Some a, Some b) \<Rightarrow> a = b | _ \<Rightarrow> False)"

fun hashable :: "py \<Rightarrow> bool" where
  "hashable (PList xs) = False"
| "hashable (PDict kvs) = False"
| "hashable (PTuple xs) = list_all hashable xs"
| "hashable _ = True"

text \<open>\<^verbatim>\<open>x not in seen\<close> for a set \<open>seen\<close>, kept here as the list of its members.\<close>

definition not_in :: "py \<Rightarrow> py list \<Rightarrow> exn + bool" where
  "not_in x seen = (if hashable x then Inr (\<not> list_ex (py_eq x) seen) else Inl TypeError)"

fun and_then :: "exn + 'a \<Rightarrow> ('a \<Rightarrow> exn + 'b) \<Rightarrow> exn + 'b" where
  "and_then (Inl e) f = Inl e"
| "and_then (Inr x) f = f x"

section \<open>The metadata source\<close>

text \<open>
  \<^verbatim>\<open>requests.get\<close> either raises or returns a response with a status code and a
  body, which \<^verbatim>\<open>.json()\<close> parses or rejects. One run of the pipeline issues its
  requests in a fixed order, so each is identified by its place: the page for
  \<^verbatim>\<open>/discover/movie\<close>, and the page, the position of the record in that page and
  the record's id for \<^verbatim>\<open>/movie/{id}/watch/providers\<close> and
  \<^verbatim>\<open>/movie/{id}/external_ids\<close>. The answers of the source during one run (for
  the run's credential, language and date) are functions of these.
\<close>

datatype response = Response (status_code: int) (body: "py option")

definition json :: "response \<Rightarrow> exn + py" where
  "json r = (case body r of None \<Rightarrow> Inl JSONDecodeError | Some v \<Rightarrow> Inr v)"

record upstream =
  discover :: "nat \<Rightarrow> exn + response"
  watch_providers :: "nat \<Rightarrow> nat \<Rightarrow> py \<Rightarrow> exn + response"
  external_ids :: "nat \<Rightarrow> nat \<Rightarrow> py \<Rightarrow> exn + response"

section \<open>fetch_and_cache_movies\<close>

text \<open>
  Lines 57-73, the body of the inner \<^verbatim>\<open>try\<close>: \<open>Inr (Some m)\<close> when the record is
  appended (as \<open>m\<close>, with its \<^verbatim>\<open>imdb_id\<close> set), \<open>Inr None\<close> when a test fails,
  \<open>Inl e\<close> when a statement raises.
\<close>

definition check_ott :: "upstream \<Rightarrow> nat \<Rightarrow> nat \<Rightarrow> py \<Rightarrow> py \<Rightarrow> exn + py option" where
  "check_ott up page i movie_id movie =
     and_then (watch_providers up page i movie_id) (\<lambda>prov_response.
     and_then (json prov_response) (\<lambda>prov_data.
     and_then (contains ''results'' prov_data) (\<lambda>has_results.
     if \<not> has_results then Inr None else
     and_then (subscript prov_data ''results'') (\<lambda>results.
     and_then (contains ''IN'' results) (\<lambda>has_in.
     if \<not> has_in then Inr None else
     and_then (subscript results ''IN'') (\<lambda>region.
     and_then (contains ''flatrate'' region) (\<lambda>has_flatrate.
     if \<not> has_flatrate then Inr None else
     and_then (external_ids up page i movie_id) (\<lambda>ext_response.
     and_then (json ext_response) (\<lambda>ext_data.
     and_then (get ext_data ''imdb_id'') (\<lambda>imdb_id.
     if \<not> truthy imdb_id then Inr None else
     and_then (startswith imdb_id ''tt'') (\<lambda>tt.
     if \<not> tt then Inr None else
     and_then (setitem movie ''imdb_id'' imdb_id) (\<lambda>movie'.
     Inr (Some movie')))))))))))))"

text \<open>
  Lines 50-76, \<^verbatim>\<open>for movie in results\<close>, from position \<open>i\<close>: the list
  \<^verbatim>\<open>final_movies\<close> after the loop, and the exception that left it, if any. The
  two \<^verbatim>\<open>movie.get\<close> calls stand outside the inner \<^verbatim>\<open>try\<close>; its handler
  continues with the next record.
\<close>

fun movie_loop :: "upstream \<Rightarrow> nat \<Rightarrow> nat \<Rightarrow> py list \<Rightarrow> py list \<Rightarrow> py list \<times> exn option" where
  "movie_loop up page i [] final_movies = (final_movies, None)"
| "movie_loop up page i (movie # rest) final_movies =
     (case get movie ''id'' of
        Inl e \<Rightarrow> (final_movies, Some e)
      | Inr movie_id \<Rightarrow>
     (case get movie ''title'' of
        Inl e \<Rightarrow> (final_movies, Some e)
      | Inr title \<Rightarrow>
     if \<not> truthy movie_id \<or> \<not> truthy title then movie_loop up page (Suc i) rest final_movies
     else
     (case check_ott up page i movie_id movie of
        Inl e \<Rightarrow> movie_loop up page (Suc i) rest final_movies
      | Inr None \<Rightarrow> movie_loop up page (Suc i) rest final_movies
      | Inr (Some movie') \<Rightarrow> movie_loop up page (Suc i) rest (final_movies @ [movie']))))"

text \<open>
  The state of the page loop: \<^verbatim>\<open>final_movies\<close>, and the pages announced by line
  29 (\<^verbatim>\<open>[INFO] Checking page ...\<close>), in order.
\<close>

record run =
  final_movies :: "py list"
  checked :: "nat list"

datatype flow = Continue | Break

text \<open>
  Lines 29-80, one turn of \<^verbatim>\<open>for page in range(1, 1000)\<close>. Every exception of
  lines 40-76 that the inner handler does not take reaches the outer one, which breaks.
\<close>

definition page_body :: "upstream \<Rightarrow> nat \<Rightarrow> run \<Rightarrow> run \<times> flow" where
  "page_body up page st =
     (let st = st\<lparr>checked := checked st @ [page]\<rparr> in
      case discover up page of
        Inl e \<Rightarrow> (st, Break)
      | Inr response \<Rightarrow>
      if status_code response \<noteq> 200 then (st, Break)
      else
      (case and_then (json response) (\<lambda>data. get_default data ''results'' (PList [])) of
        Inl e \<Rightarrow> (st, Break)
      | Inr results \<Rightarrow>
      if \<not> truthy results then (st, Break)
      else
      (case iterate results of
        Inl e \<Rightarrow> (st, Break)
      | Inr movies \<Rightarrow>
      (case movie_loop up page 0 movies (final_movies st) of
        (final_movies', Some e) \<Rightarrow> (st\<lparr>final_movies := final_movies'\<rparr>, Break)
      | (final_movies', None) \<Rightarrow> (st\<lparr>final_movies := final_movies'\<rparr>, Continue)))))"

fun page_loop :: "upstream \<Rightarrow> nat list \<Rightarrow> run \<Rightarrow> run" where
  "page_loop up [] st = st"
| "page_loop up (page # pages) st =
     (case page_body up page st of
        (st', Break) \<Rightarrow> st'
      | (st', Continue) \<Rightarrow> page_loop up pages st')"

definition pages :: "upstream \<Rightarrow> run" where
  "pages up = page_loop up [1..<1000] \<lparr>final_movies = [], checked = []\<rparr>"

text \<open>
  Lines 82-89. \<^verbatim>\<open>seen_ids\<close> is the list of the identifiers added so far. The loop
  stands outside every \<^verbatim>\<open>try\<close>, so an exception here would leave the function.
\<close>

fun dedup_loop :: "py list \<Rightarrow> py list \<Rightarrow> py list \<Rightarrow> exn + py list" where
  "dedup_loop [] seen_ids unique_movies = Inr unique_movies"
| "dedup_loop (movie # rest) seen_ids unique_movies =
     and_then (get movie ''imdb_id'') (\<lambda>imdb_id.
     and_then (if truthy imdb_id then not_in imdb_id seen_ids else Inr False) (\<lambda>fresh.
     if fresh then dedup_loop rest (seen_ids @ [imdb_id]) (unique_movies @ [movie])
     else dedup_loop rest seen_ids unique_movies))"

text \<open>
  \<^verbatim>\<open>f"{x}"\<close>: a string is inserted as it is; the rendering of any other value
  (\<^verbatim>\<open>str(x)\<close>) is a parameter \<open>fmt\<close> of the model.
\<close>

definition fstring :: "(py \<Rightarrow> string) \<Rightarrow> py \<Rightarrow> string" where
  "fstring fmt x = (case x of PStr s \<Rightarrow> s | _ \<Rightarrow> fmt x)"

definition cache_key_of :: "(py \<Rightarrow> string) \<Rightarrow> py \<Rightarrow> string \<Rightarrow> string" where
  "cache_key_of fmt api_key language = fstring fmt api_key @ ''_'' @ language"

type_synonym cache = "string \<rightharpoonup> py list"

text \<open>
  The whole function: the cache after line 92 and the returned list, or the exception
  that left the function.
\<close>

definition fetch_and_cache_movies ::
    "(py \<Rightarrow> string) \<Rightarrow> upstream \<Rightarrow> py \<Rightarrow> string \<Rightarrow> cache \<Rightarrow> exn + cache \<times> py list" where
  "fetch_and_cache_movies fmt up api_key language movie_cache =
     (let cache_key = cache_key_of fmt api_key language in
      and_then (dedup_loop (final_movies (pages up)) [] []) (\<lambda>unique_movies.
      Inr (movie_cache(cache_key \<mapsto> unique_movies), unique_movies)))"

section \<open>Standard-library functions\<close>

text \<open>
  \<^verbatim>\<open>decode_user_config\<close>, \<^verbatim>\<open>encode_user_config\<close> and \<^verbatim>\<open>catalog\<close> call
  \<^verbatim>\<open>base64.b64encode\<close>, \<^verbatim>\<open>base64.b64decode\<close>, \<^verbatim>\<open>str.encode\<close>,
  \<^verbatim>\<open>bytes.decode\<close>, \<^verbatim>\<open>json.dumps\<close>, \<^verbatim>\<open>json.loads\<close> and \<^verbatim>\<open>int\<close>. They are
  written out here as CPython behaves, with their default arguments. A byte is a
  \<open>char\<close>; a character of a text is a \<open>char\<close> too, the code point below 256 that it
  stands for, and a text that holds a character beyond that is outside this model.
  Floats are printed and read by the platform: \<open>float_repr\<close> and \<open>float_of\<close> are
  parameters. The limit on the digits of an integer literal is left out.
\<close>

subsection \<open>Base64\<close>


definition b64_value :: "char \<Rightarrow> nat option" where
  "b64_value c =
     (let n = of_char c :: nat in
      if 65 \<le> n \<and> n \<le> 90 then Some (n - 65)
      else if 97 \<le> n \<and> n \<le> 122 then Some (n - 71)
      else if 48 \<le> n \<and> n \<le> 57 then Some (n + 4)
      else if c = CHR ''+'' then Some 62
      else if c = CHR ''/'' then Some 63
      else None)"


text \<open>
  \<^verbatim>\<open>binascii.a2b_base64\<close> without strict mode, as \<^verbatim>\<open>b64decode\<close> calls it: a
  character outside the alphabet is skipped, padding that completes a group ends the
  input, and a group left open is an error. The state is the position in the group,
  the bits left over, the padding characters seen and the bytes produced.
\<close>

fun a2b_base64 :: "nat \<Rightarrow> nat \<Rightarrow> nat \<Rightarrow> string \<Rightarrow> char list \<Rightarrow> exn + char list" where
  "a2b_base64 quad_pos leftchar pads [] bin =
     (if quad_pos \<noteq> 0 then Inl BinasciiError else Inr bin)"
| "a2b_base64 quad_pos leftchar pads (this_ch # rest) bin =
     (if this_ch = CHR ''='' then
        (if quad_pos \<ge> 2 \<and> quad_pos + (pads + 1) \<ge> 4 then Inr bin
         else a2b_base64 quad_pos leftchar (if quad_pos \<ge> 2 then pads + 1 else pads) rest bin)
      else
        (case b64_value this_ch of
           None \<Rightarrow> a2b_base64 quad_pos leftchar pads rest bin
         | Some v \<Rightarrow>
             if quad_pos = 0 then a2b_base64 1 v 0 rest bin
             else if quad_pos = 1 then
               a2b_base64 2 (v mod 16) 0 rest (bin @ [char_of (leftchar * 4 + v div 16)])
             else if quad_pos = 2 then
               a2b_base64 3 (v mod 4) 0 rest (bin @ [char_of (leftchar * 16 + v div 4)])
             else a2b_base64 0 0 0 rest (bin @ [char_of (leftchar * 64 + v)])))"

text \<open>\<^verbatim>\<open>base64.b64decode\<close> of a \<^verbatim>\<open>str\<close>: it must be ASCII.\<close>

definition b64decode :: "string \<Rightarrow> exn + char list" where
  "b64decode s =
     (if \<forall>c\<in>set s. (of_char c :: nat) < 128 then a2b_base64 0 0 0 s [] else Inl ValueError)"

subsection \<open>UTF-8\<close>


fun utf8_decode :: "char list \<Rightarrow> exn + string" where
  "utf8_decode [] = Inr []"
| "utf8_decode (b # bs) =
     (let n = of_char b :: nat in
      if n < 128 then and_then (utf8_decode bs) (\<lambda>s. Inr (b # s))
      else if n = 194 \<or> n = 195 then
        (case bs of
           [] \<Rightarrow> Inl UnicodeDecodeError
         | c # bs' \<Rightarrow>
             let m = of_char c :: nat in
             if 128 \<le> m \<and> m < 192
             then and_then (utf8_decode bs') (\<lambda>s. Inr (char_of ((n - 192) * 64 + (m - 128)) # s))
             else Inl UnicodeDecodeError)
      else Inl UnicodeDecodeError)"

subsection \<open>Integers as text\<close>


definition is_digit :: "char \<Rightarrow> bool" where
  "is_digit c = (48 \<le> (of_char c :: nat) \<and> (of_char c :: nat) \<le> 57)"

definition digit_value :: "char \<Rightarrow> nat" where
  "digit_value c = of_char c - 48"



definition number_of_digits :: "string \<Rightarrow> nat" where
  "number_of_digits ds = foldl (\<lambda>n c. 10 * n + digit_value c) 0 ds"

text \<open>
  \<^verbatim>\<open>int(s)\<close> for a \<^verbatim>\<open>str\<close>: white space around, a sign, decimal digits, single
  underscores between digits.
\<close>

definition is_space :: "char \<Rightarrow> bool" where
  "is_space c = ((of_char c :: nat) \<in> {9, 10, 11, 12, 13, 32, 133, 160})"

definition strip :: "string \<Rightarrow> string" where
  "strip s = rev (dropWhile is_space (rev (dropWhile is_space s)))"

fun digit_groups :: "string \<Rightarrow> string \<Rightarrow> string option" where
  "digit_groups [] acc = (if acc = [] then None else Some acc)"
| "digit_groups (c # cs) acc =
     (if is_digit c then digit_groups cs (acc @ [c])
      else if c = CHR ''_'' \<and> acc \<noteq> [] \<and> cs \<noteq> [] \<and> is_digit (hd cs) then digit_groups cs acc
      else None)"

definition py_int :: "string \<Rightarrow> exn + int" where
  "py_int s =
     (let t = strip s;
          (negative, body) = (case t of
             c # cs \<Rightarrow> if c = CHR ''-'' then (True, cs) else if c = CHR ''+'' then (False, cs) else (False, t)
           | [] \<Rightarrow> (False, t))
      in case digit_groups body [] of
           None \<Rightarrow> Inl ValueError
         | Some ds \<Rightarrow> Inr (if negative then - int (number_of_digits ds) else int (number_of_digits ds)))"

subsection \<open>JSON\<close>

text \<open>
  \<^verbatim>\<open>json.dumps\<close> with its defaults: non-ASCII and control characters are escaped,
  the separators are \<^verbatim>\<open>", "\<close> and \<^verbatim>\<open>": "\<close>, a tuple is written as a list, and a
  dictionary key that is a number, a boolean or None is turned into a string.
\<close>

definition hex_digit :: "nat \<Rightarrow> char" where
  "hex_digit n = (if n < 10 then char_of (48 + n) else char_of (87 + n))"

definition escape_char :: "char \<Rightarrow> string" where
  "escape_char c =
     (let n = of_char c :: nat in
      if c = CHR 0x22 then [CHR 0x5C, CHR 0x22]
      else if c = CHR 0x5C then [CHR 0x5C, CHR 0x5C]
      else if n = 8 then [CHR 0x5C, CHR ''b'']
      else if n = 12 then [CHR 0x5C, CHR ''f'']
      else if n = 10 then [CHR 0x5C, CHR ''n'']
      else if n = 13 then [CHR 0x5C, CHR ''r'']
      else if n = 9 then [CHR 0x5C, CHR ''t'']
      else if 32 \<le> n \<and> n \<le> 126 then [c]
      else [CHR 0x5C, CHR ''u'', CHR ''0'', CHR ''0'', hex_digit (n div 16), hex_digit (n mod 16)])"

definition encode_basestring_ascii :: "string \<Rightarrow> string" where
  "encode_basestring_ascii s = CHR 0x22 # concat (map escape_char s) @ [CHR 0x22]"




text \<open>
  \<^verbatim>\<open>json.loads\<close>: the scanner of \<^verbatim>\<open>json.decoder\<close> and \<^verbatim>\<open>json.scanner\<close>.
  Each function takes the text from its position on and returns the value with the
  text that follows it, or \<open>None\<close> where the decoder raises.
\<close>

definition is_ws :: "char \<Rightarrow> bool" where
  "is_ws c = (c = CHR '' '' \<or> (of_char c :: nat) = 9 \<or> (of_char c :: nat) = 10 \<or> (of_char c :: nat) = 13)"

definition skip_ws :: "string \<Rightarrow> string" where
  "skip_ws s = dropWhile is_ws s"

definition expect :: "char \<Rightarrow> string \<Rightarrow> string option" where
  "expect c s = (case s of [] \<Rightarrow> None | d # rest \<Rightarrow> if d = c then Some rest else None)"

definition hex_value :: "char \<Rightarrow> nat option" where
  "hex_value c =
     (let n = of_char c :: nat in
      if 48 \<le> n \<and> n \<le> 57 then Some (n - 48)
      else if 97 \<le> n \<and> n \<le> 102 then Some (n - 87)
      else if 65 \<le> n \<and> n \<le> 70 then Some (n - 55)
      else None)"

definition decode_uXXXX :: "char \<Rightarrow> char \<Rightarrow> char \<Rightarrow> char \<Rightarrow> nat option" where
  "decode_uXXXX a b c d =
     (case (hex_value a, hex_value b, hex_value c, hex_value d) of
        (Some w, Some x, Some y, Some z) \<Rightarrow> Some (((w * 16 + x) * 16 + y) * 16 + z)
      | _ \<Rightarrow> None)"

definition backslash :: "char \<Rightarrow> char option" where
  "backslash esc =
     (if esc = CHR 0x22 \<or> esc = CHR 0x5C \<or> esc = CHR ''/'' then Some esc
      else if esc = CHR ''b'' then Some (char_of (8 :: nat))
      else if esc = CHR ''f'' then Some (char_of (12 :: nat))
      else if esc = CHR ''n'' then Some (char_of (10 :: nat))
      else if esc = CHR ''r'' then Some (char_of (13 :: nat))
      else if esc = CHR ''t'' then Some (char_of (9 :: nat))
      else None)"

text \<open>
  \<^verbatim>\<open>scanstring\<close>, from behind the opening quote. An escape for a character
  beyond 255 has no value in this model and is reported like an error.
\<close>

fun scanstring :: "string \<Rightarrow> string \<Rightarrow> (string \<times> string) option" where
  "scanstring [] chunks = None"
| "scanstring (c # cs) chunks =
     (if c = CHR 0x22 then Some (chunks, cs)
      else if c = CHR 0x5C then
        (case cs of
           [] \<Rightarrow> None
         | esc # cs1 \<Rightarrow>
             if esc = CHR ''u'' then
               (case cs1 of
                  a # b # c2 # d # cs2 \<Rightarrow>
                    (case decode_uXXXX a b c2 d of
                       None \<Rightarrow> None
                     | Some uni \<Rightarrow> if uni < 256 then scanstring cs2 (chunks @ [char_of uni]) else None)
                | _ \<Rightarrow> None)
             else
               (case backslash esc of
                  None \<Rightarrow> None
                | Some ch \<Rightarrow> scanstring cs1 (chunks @ [ch])))
      else if (of_char c :: nat) < 32 then None
      else scanstring cs (chunks @ [c]))"

text \<open>
  \<^verbatim>\<open>NUMBER_RE\<close>: \<^verbatim>\<open>(-?(?:0|[1-9]\d*))(\.\d+)?([eE][-+]?\d+)?\<close>, group by group; each
  returns the text it matched and the rest.
\<close>

definition match_integer :: "string \<Rightarrow> (string \<times> string) option" where
  "match_integer s =
     (let (sign, s1) = (case s of c # cs \<Rightarrow> if c = CHR ''-'' then ([c], cs) else ([], s) | [] \<Rightarrow> ([], s))
      in case s1 of
           [] \<Rightarrow> None
         | c # cs \<Rightarrow>
             if c = CHR ''0'' then Some (sign @ [c], cs)
             else if is_digit c then Some (sign @ c # takeWhile is_digit cs, dropWhile is_digit cs)
             else None)"

definition match_frac :: "string \<Rightarrow> string \<times> string" where
  "match_frac s =
     (case s of
        c # d # cs \<Rightarrow>
          if c = CHR ''.'' \<and> is_digit d then (c # d # takeWhile is_digit cs, dropWhile is_digit cs)
          else ([], s)
      | _ \<Rightarrow> ([], s))"

definition match_exp :: "string \<Rightarrow> string \<times> string" where
  "match_exp s =
     (case s of
        [] \<Rightarrow> ([], s)
      | e # cs \<Rightarrow>
          if e = CHR ''e'' \<or> e = CHR ''E'' then
            (let (sign, cs1) = (case cs of
                    c # cs' \<Rightarrow> if c = CHR ''-'' \<or> c = CHR ''+'' then ([c], cs') else ([], cs)
                  | [] \<Rightarrow> ([], cs))
             in case cs1 of
                  [] \<Rightarrow> ([], s)
                | d # cs2 \<Rightarrow>
                    if is_digit d then (e # sign @ d # takeWhile is_digit cs2, dropWhile is_digit cs2)
                    else ([], s))
          else ([], s))"

definition int_of_literal :: "string \<Rightarrow> int" where
  "int_of_literal t =
     (case t of
        c # cs \<Rightarrow> if c = CHR ''-'' then - int (number_of_digits cs) else int (number_of_digits t)
      | [] \<Rightarrow> 0)"

definition scan_number :: "(string \<Rightarrow> real) \<Rightarrow> string \<Rightarrow> (py \<times> string) option" where
  "scan_number float_of s =
     (case match_integer s of
        None \<Rightarrow> None
      | Some (integer, s1) \<Rightarrow>
          (let (frac, s2) = match_frac s1; (exp, s3) = match_exp s2 in
           if frac \<noteq> [] \<or> exp \<noteq> [] then Some (PFloat (float_of (integer @ frac @ exp)), s3)
           else Some (PInt (int_of_literal integer), s3)))"

definition scan_constant :: "(string \<Rightarrow> real) \<Rightarrow> string \<Rightarrow> (py \<times> string) option" where
  "scan_constant float_of s =
     (if prefix ''null'' s then Some (PNone, drop 4 s)
      else if prefix ''true'' s then Some (PBool True, drop 4 s)
      else if prefix ''false'' s then Some (PBool False, drop 5 s)
      else case scan_number float_of s of
        Some r \<Rightarrow> Some r
      | None \<Rightarrow>
          if prefix ''NaN'' s then Some (PFloat (float_of ''NaN''), drop 3 s)
          else if prefix ''Infinity'' s then Some (PFloat (float_of ''Infinity''), drop 8 s)
          else if prefix ''-Infinity'' s then Some (PFloat (float_of ''-Infinity''), drop 9 s)
          else None)"

text \<open>\<^verbatim>\<open>dict(pairs)\<close>: a key that comes again keeps its place and takes the new value.\<close>

definition dict_of :: "(py \<times> py) list \<Rightarrow> (py \<times> py) list" where
  "dict_of pairs = foldl (\<lambda>d (k, v). AList.update k v d) [] pairs"

text \<open>
  \<^verbatim>\<open>scan_once\<close>, \<^verbatim>\<open>JSONArray\<close> (from the first value on) and \<^verbatim>\<open>JSONObject\<close>
  (from behind the quote that opens a key). The recursion is on a counter that
  \<^verbatim>\<open>loads\<close> starts above the length of the text: every call reads at least one
  character before it calls again.
\<close>

fun scan_once :: "(string \<Rightarrow> real) \<Rightarrow> nat \<Rightarrow> string \<Rightarrow> (py \<times> string) option"
  and array_values :: "(string \<Rightarrow> real) \<Rightarrow> nat \<Rightarrow> string \<Rightarrow> py list \<Rightarrow> (py \<times> string) option"
  and object_pairs :: "(string \<Rightarrow> real) \<Rightarrow> nat \<Rightarrow> string \<Rightarrow> (py \<times> py) list \<Rightarrow> (py \<times> string) option" where
  "scan_once float_of 0 s = None"
| "scan_once float_of (Suc n) s =
     (case s of
        [] \<Rightarrow> None
      | nextchar # rest \<Rightarrow>
          if nextchar = CHR 0x22 then
            (case scanstring rest [] of None \<Rightarrow> None | Some (t, s1) \<Rightarrow> Some (PStr t, s1))
          else if nextchar = CHR ''{'' then
            (case skip_ws rest of
               [] \<Rightarrow> None
             | c # s1 \<Rightarrow>
                 if c = CHR ''}'' then Some (PDict [], s1)
                 else if c = CHR 0x22 then object_pairs float_of n s1 []
                 else None)
          else if nextchar = CHR ''['' then
            (case expect CHR '']'' (skip_ws rest) of
               Some s1 \<Rightarrow> Some (PList [], s1)
             | None \<Rightarrow> array_values float_of n (skip_ws rest) [])
          else scan_constant float_of s)"
| "array_values float_of 0 s values = None"
| "array_values float_of (Suc n) s values =
     (case scan_once float_of n s of
        None \<Rightarrow> None
      | Some (v, s1) \<Rightarrow>
          (case skip_ws s1 of
             [] \<Rightarrow> None
           | c # s2 \<Rightarrow>
               if c = CHR '']'' then Some (PList (values @ [v]), s2)
               else if c = CHR '','' then array_values float_of n (skip_ws s2) (values @ [v])
               else None))"
| "object_pairs float_of 0 s pairs = None"
| "object_pairs float_of (Suc n) s pairs =
     (case scanstring s [] of
        None \<Rightarrow> None
      | Some (key, s1) \<Rightarrow>
          (case expect CHR '':'' (skip_ws s1) of
             None \<Rightarrow> None
           | Some s2 \<Rightarrow>
               (case scan_once float_of n (skip_ws s2) of
                  None \<Rightarrow> None
                | Some (v, s3) \<Rightarrow>
                    (case skip_ws s3 of
                       [] \<Rightarrow> None
                     | c # s4 \<Rightarrow>
                         if c = CHR ''}'' then Some (PDict (dict_of (pairs @ [(PStr key, v)])), s4)
                         else if c = CHR '','' then
                           (case expect CHR 0x22 (skip_ws s4) of
                              None \<Rightarrow> None
                            | Some s5 \<Rightarrow> object_pairs float_of n s5 (pairs @ [(PStr key, v)]))
                         else None))))"

definition loads :: "(string \<Rightarrow> real) \<Rightarrow> string \<Rightarrow> exn + py" where
  "loads float_of s =
     (case scan_once float_of (Suc (length s)) (skip_ws s) of
        None \<Rightarrow> Inl JSONDecodeError
      | Some (obj, rest) \<Rightarrow> if skip_ws rest = [] then Inr obj else Inl JSONDecodeError)"

section \<open>decode_user_config and encode_user_config\<close>

text \<open>Lines 118-124; the bare \<^verbatim>\<open>except\<close> turns every exception into None.\<close>

definition decode_user_config :: "(string \<Rightarrow> real) \<Rightarrow> string \<Rightarrow> py" where
  "decode_user_config float_of config_string =
     (case and_then (b64decode config_string) (\<lambda>bytes.
           and_then (utf8_decode bytes) (\<lambda>decoded.
           loads float_of decoded)) of
        Inl e \<Rightarrow> PNone
      | Inr config \<Rightarrow> config)"


section \<open>to_stremio_meta and catalog\<close>

text \<open>Lines 97-116; the handler of line 114 turns every exception into None.\<close>

definition image_url :: "(py \<Rightarrow> string) \<Rightarrow> string \<Rightarrow> py \<Rightarrow> string \<Rightarrow> exn + py" where
  "image_url fmt base movie k =
     and_then (get movie k) (\<lambda>path.
     if truthy path then and_then (subscript movie k) (\<lambda>p. Inr (PStr (base @ fstring fmt p)))
     else Inr PNone)"

definition to_stremio_meta :: "(py \<Rightarrow> string) \<Rightarrow> py \<Rightarrow> py" where
  "to_stremio_meta fmt movie =
     (case
        and_then (get movie ''imdb_id'') (\<lambda>imdb_id.
        and_then (get movie ''title'') (\<lambda>title.
        if \<not> truthy imdb_id \<or> \<not> truthy title then Inr PNone else
        and_then (image_url fmt ''https://image.tmdb.org/t/p/w500'' movie ''poster_path'') (\<lambda>poster.
        and_then (get_default movie ''overview'' (PStr [])) (\<lambda>description.
        and_then (get_default movie ''release_date'' (PStr [])) (\<lambda>release_info.
        and_then (image_url fmt ''https://image.tmdb.org/t/p/w780'' movie ''backdrop_path'') (\<lambda>background.
        Inr (PDict [(PStr ''id'', imdb_id), (PStr ''type'', PStr ''movie''), (PStr ''name'', title),
                    (PStr ''poster'', poster), (PStr ''description'', description),
                    (PStr ''releaseInfo'', release_info), (PStr ''background'', background)])))))))
      of Inl e \<Rightarrow> PNone | Inr meta \<Rightarrow> meta)"

text \<open>\<^verbatim>\<open>xs[start:stop]\<close>: a negative bound counts from the end, and both are clamped.\<close>

definition slice :: "'a list \<Rightarrow> int \<Rightarrow> int \<Rightarrow> 'a list" where
  "slice xs start stop =
     (let n = int (length xs);
          lo = (if start < 0 then max 0 (n + start) else min start n);
          hi = (if stop < 0 then max 0 (n + stop) else min stop n)
      in take (nat (hi - lo)) (drop (nat lo) xs))"

text \<open>
  The state that the request handlers and the background threads share:
  \<^verbatim>\<open>movie_cache\<close>, and the background fetches that were started and have not
  finished, as their arguments. Every access to \<^verbatim>\<open>movie_cache\<close> happens under
  \<^verbatim>\<open>cache_lock\<close>, so a handler and the final write of a fetch are steps that do not
  overlap.
\<close>

record server =
  movie_cache :: cache
  threads :: "(py \<times> string) list"

datatype reply = Reply (status: int) (payload: py)

definition metas_json :: "py list \<Rightarrow> py" where
  "metas_json metas = PDict [(PStr ''metas'', PList metas)]"

text \<open>
  Lines 483-518, for the route arguments \<open>config_string\<close> and \<open>language\<close> and the
  query parameter \<^verbatim>\<open>skip\<close> when it is given: the reply and the state after the
  handler, or the exception that leaves it.
\<close>

definition catalog ::
    "(py \<Rightarrow> string) \<Rightarrow> (string \<Rightarrow> real) \<Rightarrow> string \<Rightarrow> string \<Rightarrow> string option \<Rightarrow> server
       \<Rightarrow> exn + reply \<times> server" where
  "catalog fmt float_of config_string language skip_arg s =
     (let config = decode_user_config float_of config_string in
      and_then (if \<not> truthy config then Inr True
                else and_then (contains ''api_key'' config) (\<lambda>present. Inr (\<not> present))) (\<lambda>invalid.
      if invalid then Inr (Reply 400 (metas_json []), s) else
      and_then (subscript config ''api_key'') (\<lambda>api_key.
      and_then (case skip_arg of None \<Rightarrow> Inr 0 | Some text \<Rightarrow> py_int text) (\<lambda>skip.
      let cache_key = cache_key_of fmt api_key language in
      case movie_cache s cache_key of
        None \<Rightarrow> Inr (Reply 200 (metas_json []), s\<lparr>threads := threads s @ [(api_key, language)]\<rparr>)
      | Some cached_movies \<Rightarrow>
          let stop = skip + 100;
              paginated_movies = slice cached_movies skip stop;
              metas = filter truthy (map (to_stremio_meta fmt) paginated_movies)
          in Inr (Reply 200 (metas_json metas), s)))))"

text \<open>
  A background thread started by line 502 runs \<^verbatim>\<open>fetch_and_cache_movies\<close> to its
  end against the source \<open>up\<close>; its write to the cache is the step modelled here.
\<close>

definition thread_finishes :: "(py \<Rightarrow> string) \<Rightarrow> upstream \<Rightarrow> py \<times> string \<Rightarrow> server \<Rightarrow> server" where
  "thread_finishes fmt up thread s =
     (case fetch_and_cache_movies fmt up (fst thread) (snd thread) (movie_cache s) of
        Inl e \<Rightarrow> s\<lparr>threads := remove1 thread (threads s)\<rparr>
      | Inr (movie_cache', unique_movies) \<Rightarrow>
          s\<lparr>movie_cache := movie_cache', threads := remove1 thread (threads s)\<rparr>)"

text \<open>What a request is text-wise valid for: the configuration names a credential.\<close>

definition credential :: "(string \<Rightarrow> real) \<Rightarrow> string \<Rightarrow> py option" where
  "credential float_of config_string =
     (let config = decode_user_config float_of config_string in
      if truthy config \<and> contains ''api_key'' config = Inr True
      then (case subscript config ''api_key'' of Inr api_key \<Rightarrow> Some api_key | Inl e \<Rightarrow> None)
      else None)"

text \<open>The server before any request.\<close>

definition idle :: server where
  "idle = \<lparr>movie_cache = Map.empty, threads = []\<rparr>"

text \<open>Stand-ins for the platform's renderings where an example needs one.\<close>

definition plain_format :: "py \<Rightarrow> string" where
  "plain_format x = []"

definition zero_float :: "string \<Rightarrow> real" where
  "zero_float text = 0"


section \<open>Notions used in the statements\<close>

text \<open>The value of a key of a record, \<open>PNone\<close> when there is none.\<close>

definition field :: "string \<Rightarrow> py \<Rightarrow> py" where
  "field k m = (case get m k of Inr v \<Rightarrow> v | Inl e \<Rightarrow> PNone)"

text \<open>
  What every entry of \<^verbatim>\<open>final_movies\<close> is: a dictionary whose \<^verbatim>\<open>imdb_id\<close> is a
  string that starts with \<^verbatim>\<open>tt\<close> and whose \<^verbatim>\<open>title\<close> is truthy.
\<close>

definition stored :: "py \<Rightarrow> bool" where
  "stored m = (case m of
      PDict kvs \<Rightarrow> (case field ''imdb_id'' m of PStr s \<Rightarrow> prefix ''tt'' s | _ \<Rightarrow> False) \<and> truthy (field ''title'' m)
    | _ \<Rightarrow> False)"

text \<open>
  Deduplication as the specification words it: the records whose identifier has not
  occurred before, in their order. \<open>seen\<close> holds the identifiers met so far.
\<close>

fun first_seen :: "py list \<Rightarrow> py list \<Rightarrow> py list" where
  "first_seen seen [] = []"
| "first_seen seen (m # ms) =
     (if field ''imdb_id'' m \<in> set seen then first_seen seen ms
      else m # first_seen (seen @ [field ''imdb_id'' m]) ms)"

text \<open>
  The answer of \<^verbatim>\<open>/watch/providers\<close> passes the tests of lines 63-64:
  \<^verbatim>\<open>"flatrate" in prov_data["results"]["IN"]\<close>.
\<close>

definition flatrate_available :: "exn + response \<Rightarrow> bool" where
  "flatrate_available answer =
     (case answer of
        Inl e \<Rightarrow> False
      | Inr r \<Rightarrow>
          (case and_then (json r) (\<lambda>prov_data.
                and_then (subscript prov_data ''results'') (\<lambda>results.
                and_then (subscript results ''IN'') (contains ''flatrate''))) of
             Inl e \<Rightarrow> False
           | Inr b \<Rightarrow> b))"

text \<open>The \<^verbatim>\<open>imdb_id\<close> that the answer of \<^verbatim>\<open>/external_ids\<close> carries.\<close>

definition imdb_answer :: "exn + response \<Rightarrow> py option" where
  "imdb_answer answer =
     (case answer of
        Inl e \<Rightarrow> None
      | Inr r \<Rightarrow> (case and_then (json r) (\<lambda>ext_data. get ext_data ''imdb_id'') of
                   Inl e \<Rightarrow> None | Inr v \<Rightarrow> Some v))"

text \<open>
  Per-record isolation as the specification words it: what one record contributes to
  \<^verbatim>\<open>final_movies\<close>, from that record and its own two lookups alone; a lookup that
  raises contributes nothing.
\<close>

definition kept :: "upstream \<Rightarrow> nat \<Rightarrow> nat \<Rightarrow> py \<Rightarrow> py option" where
  "kept up page i movie =
     (case (get movie ''id'', get movie ''title'') of
        (Inr movie_id, Inr title) \<Rightarrow>
          if truthy movie_id \<and> truthy title
          then (case check_ott up page i movie_id movie of Inr (Some movie') \<Rightarrow> Some movie' | _ \<Rightarrow> None)
          else None
      | _ \<Rightarrow> None)"

text \<open>The records that the loop of line 50 goes through on a page.\<close>

definition records :: "upstream \<Rightarrow> nat \<Rightarrow> py list" where
  "records up page =
     (case discover up page of
        Inl e \<Rightarrow> []
      | Inr response \<Rightarrow>
          if status_code response \<noteq> 200 then []
          else (case and_then (json response) (\<lambda>data.
                     and_then (get_default data ''results'' (PList [])) iterate) of
                  Inl e \<Rightarrow> []
                | Inr movies \<Rightarrow> movies))"

text \<open>What one turn of the page loop appends, and how it leaves the loop.\<close>

definition page_movies :: "upstream \<Rightarrow> nat \<Rightarrow> py list" where
  "page_movies up page = final_movies (fst (page_body up page \<lparr>final_movies = [], checked = []\<rparr>))"

definition page_flow :: "upstream \<Rightarrow> nat \<Rightarrow> flow" where
  "page_flow up page = snd (page_body up page \<lparr>final_movies = [], checked = []\<rparr>)"

text \<open>The pages of a range that the loop reaches: up to the first that breaks.\<close>

fun visited :: "upstream \<Rightarrow> nat list \<Rightarrow> nat list" where
  "visited up [] = []"
| "visited up (page # rest) = page # (if page_flow up page = Break then [] else visited up rest)"

text \<open>
  A transport failure (\<^verbatim>\<open>requests.get\<close> raises) or a non-success response on a
  discovery page; a page that returns zero records.
\<close>

definition page_fails :: "upstream \<Rightarrow> nat \<Rightarrow> bool" where
  "page_fails up page = (case discover up page of Inl e \<Rightarrow> True | Inr response \<Rightarrow> status_code response \<noteq> 200)"

definition zero_records :: "upstream \<Rightarrow> nat \<Rightarrow> bool" where
  "zero_records up page =
     (case discover up page of
        Inl e \<Rightarrow> False
      | Inr response \<Rightarrow> status_code response = 200 \<and>
          (case and_then (json response) (\<lambda>data. get_default data ''results'' (PList [])) of
             Inl e \<Rightarrow> False
           | Inr results \<Rightarrow> results = PList []))"

text \<open>An enrichment lookup of the record raises (lines 58-73).\<close>

definition enrichment_fails :: "upstream \<Rightarrow> nat \<Rightarrow> nat \<Rightarrow> py \<Rightarrow> bool" where
  "enrichment_fails up page i movie = isl (check_ott up page i (field ''id'' movie) movie)"

section \<open>Example runs\<close>

text \<open>
  A source with one page of four records, of which the second one's provider lookup
  raises and the first and third share an IMDb identifier; page 2 is a transport
  failure. And a source that cannot be reached at all.
\<close>

definition record_of :: "int \<Rightarrow> string \<Rightarrow> py" where
  "record_of n t = PDict [(PStr ''id'', PInt n), (PStr ''title'', PStr t)]"

definition offers :: py where
  "offers = PDict [(PStr ''results'', PDict [(PStr ''IN'', PDict [(PStr ''flatrate'', PList [PDict [(PStr ''provider_id'', PInt 8)]])])])]"

definition example_upstream :: upstream where
  "example_upstream =
     \<lparr>discover = (\<lambda>page.
        if page = 1
        then Inr (Response 200 (Some (PDict [(PStr ''results'',
               PList [record_of 1 ''A'', record_of 4 ''D'', record_of 2 ''B'', record_of 3 ''C''])])))
        else Inl RequestException),
      watch_providers = (\<lambda>page i movie_id.
        if movie_id = PInt 4 then Inl RequestException else Inr (Response 200 (Some offers))),
      external_ids = (\<lambda>page i movie_id.
        Inr (Response 200 (Some (PDict [(PStr ''imdb_id'',
               PStr (if movie_id = PInt 3 then ''tt0000002'' else ''tt0000001''))]))))\<rparr>"

definition entry_of :: "int \<Rightarrow> string \<Rightarrow> string \<Rightarrow> py" where
  "entry_of n t s = PDict [(PStr ''id'', PInt n), (PStr ''title'', PStr t), (PStr ''imdb_id'', PStr s)]"

definition unreachable_upstream :: upstream where
  "unreachable_upstream =
     \<lparr>discover = (\<lambda>page. Inl RequestException),
      watch_providers = (\<lambda>page i movie_id. Inl RequestException),
      external_ids = (\<lambda>page i movie_id. Inl RequestException)\<rparr>"

section \<open>Notions for the round trip of a configuration\<close>




section \<open>Properties\<close>

lemma py_eq_PStr: "py_eq (PStr s) y = (y = PStr s)"
  by (cases y) auto

lemma stored_D: "stored m \<Longrightarrow> \<exists>kvs s. m = PDict kvs \<and> field ''imdb_id'' m = PStr s \<and> prefix ''tt'' s \<and> truthy (field ''title'' m)"
  by (auto simp: stored_def split: py.splits)

lemma dedup_loop_stored:
  "\<forall>m\<in>set ms. stored m \<Longrightarrow> \<forall>x\<in>set seen. \<exists>s. x = PStr s \<Longrightarrow>
   dedup_loop ms seen unique = Inr (unique @ first_seen seen ms)"
proof (induction ms arbitrary: seen unique)
  case Nil
  then show ?case by simp
next
  case (Cons m ms)
  from Cons.prems(1) have "stored m" by simp
  then obtain kvs s where m: "m = PDict kvs" and ident: "field ''imdb_id'' m = PStr s" and tt: "prefix ''tt'' s"
    using stored_D by blast
  have g: "get m ''imdb_id'' = Inr (PStr s)"
    using m ident by (simp add: field_def get_def)
  have ne: "s \<noteq> []" using tt by auto
  have mem: "list_ex (py_eq (PStr s)) seen = (PStr s \<in> set seen)"
    by (simp add: list_ex_iff py_eq_PStr)
  show ?case
  proof (cases "PStr s \<in> set seen")
    case True
    then show ?thesis
      using Cons.IH[of seen unique] Cons.prems g ne mem ident by (simp add: not_in_def)
  next
    case False
    have "\<forall>x\<in>set (seen @ [PStr s]). \<exists>t. x = PStr t" using Cons.prems(2) by auto
    then show ?thesis
      using Cons.IH[of "seen @ [PStr s]" "unique @ [m]"] Cons.prems(1) g ne mem ident False
      by (simp add: not_in_def)
  qed
qed

lemma first_seen_ids: "set (map (field ''imdb_id'') (first_seen seen ms)) = set (map (field ''imdb_id'') ms) - set seen"
  by (induction ms arbitrary: seen) auto

lemma first_seen_distinct: "distinct (map (field ''imdb_id'') (first_seen seen ms))"
  by (induction ms arbitrary: seen) (auto simp: first_seen_ids simp del: set_map)

lemma first_seen_subseq: "subseq (first_seen seen ms) ms"
  by (induction ms arbitrary: seen) auto

lemma first_seen_find:
  "m \<in> set (first_seen seen ms) \<Longrightarrow> find (\<lambda>x. field ''imdb_id'' x = field ''imdb_id'' m) ms = Some m"
proof (induction ms arbitrary: seen)
  case Nil
  then show ?case by simp
next
  case (Cons x xs)
  show ?case
  proof (cases "field ''imdb_id'' x \<in> set seen")
    case True
    with Cons.prems have in_rest: "m \<in> set (first_seen seen xs)" by simp
    then have "field ''imdb_id'' m \<in> set (map (field ''imdb_id'') (first_seen seen xs))" by simp
    then have "field ''imdb_id'' m \<notin> set seen" unfolding first_seen_ids by simp
    with True have "field ''imdb_id'' x \<noteq> field ''imdb_id'' m" by auto
    then show ?thesis using Cons.IH[OF in_rest] by simp
  next
    case False
    show ?thesis
    proof (cases "m = x")
      case True
      then show ?thesis by simp
    next
      case neq: False
      with False Cons.prems have in_rest: "m \<in> set (first_seen (seen @ [field ''imdb_id'' x]) xs)" by simp
      then have "field ''imdb_id'' m \<in> set (map (field ''imdb_id'') (first_seen (seen @ [field ''imdb_id'' x]) xs))" by simp
      then have "field ''imdb_id'' m \<noteq> field ''imdb_id'' x" unfolding first_seen_ids by auto
      then show ?thesis using Cons.IH[OF in_rest] by simp
    qed
  qed
qed

lemma and_then_Inr: "and_then x f = Inr y \<longleftrightarrow> (\<exists>a. x = Inr a \<and> f a = Inr y)"
  by (cases x) auto

lemma and_then_Inl: "and_then x f = Inl e \<longleftrightarrow> x = Inl e \<or> (\<exists>a. x = Inr a \<and> f a = Inl e)"
  by (cases x) auto

lemma contains_dict: "subscript d k = Inr v \<Longrightarrow> contains k d = Inr True"
  by (cases d) (auto split: option.splits dest: map_of_SomeD intro: rev_image_eqI)

lemma check_ott_Some:
  assumes "check_ott up page i movie_id movie = Inr (Some movie')"
  shows "flatrate_available (watch_providers up page i movie_id) \<and>
         (\<exists>s. imdb_answer (external_ids up page i movie_id) = Some (PStr s) \<and> prefix ''tt'' s \<and>
              setitem movie ''imdb_id'' (PStr s) = Inr movie')"
proof -
  from assms obtain prov_response prov_data results region ext_response ext_data imdb_id where
    a: "watch_providers up page i movie_id = Inr prov_response" "json prov_response = Inr prov_data"
       "subscript prov_data ''results'' = Inr results" "subscript results ''IN'' = Inr region"
       "contains ''flatrate'' region = Inr True"
    and b: "external_ids up page i movie_id = Inr ext_response" "json ext_response = Inr ext_data"
       "get ext_data ''imdb_id'' = Inr imdb_id" "startswith imdb_id ''tt'' = Inr True"
       "setitem movie ''imdb_id'' imdb_id = Inr movie'"
    unfolding check_ott_def by (auto simp: and_then_Inr split: if_splits)
  from b(4) obtain s where s: "imdb_id = PStr s" "prefix ''tt'' s"
    by (cases imdb_id) auto
  have "flatrate_available (watch_providers up page i movie_id)"
    using a by (simp add: flatrate_available_def)
  moreover have "imdb_answer (external_ids up page i movie_id) = Some (PStr s)"
    using b s by (simp add: imdb_answer_def)
  ultimately show ?thesis using s b(5) by auto
qed

lemma movie_loop_append:
  "movie_loop up page i ms acc =
     (acc @ fst (movie_loop up page i ms []), snd (movie_loop up page i ms []))"
proof (induction ms arbitrary: i acc)
  case Nil
  then show ?case by simp
next
  case (Cons m ms)
  have step: "\<And>x. movie_loop up page (Suc i) ms (acc @ [x]) =
      (acc @ fst (movie_loop up page (Suc i) ms [x]), snd (movie_loop up page (Suc i) ms [x]))"
    using Cons.IH[of "Suc i" "acc @ [x]" for x] Cons.IH[of "Suc i" "[x]" for x] by simp
  show ?case
    using Cons.IH[of "Suc i" acc] step
    by (simp split: sum.splits option.splits)
qed

lemma movie_loop_dicts:
  "\<forall>m\<in>set ms. \<exists>kvs. m = PDict kvs \<Longrightarrow>
   movie_loop up page i ms acc =
     (acc @ List.map_filter (\<lambda>(j, m). kept up page j m) (enumerate i ms), None)"
proof (induction ms arbitrary: i acc)
  case Nil
  then show ?case by (simp add: map_filter_simps)
next
  case (Cons m ms)
  then obtain kvs where m: "m = PDict kvs" by auto
  have rest: "\<forall>m\<in>set ms. \<exists>kvs. m = PDict kvs" using Cons.prems by simp
  show ?case
    using Cons.IH[OF rest, of "Suc i"]
    by (simp add: m kept_def get_def map_filter_simps split: sum.splits option.splits)
qed

lemma movie_loop_members:
  "m' \<in> set (fst (movie_loop up page i ms [])) \<Longrightarrow>
   \<exists>j<length ms. kept up page (i + j) (ms ! j) = Some m'"
proof (induction ms arbitrary: i)
  case Nil
  then show ?case by simp
next
  case (Cons m ms)
  have later: "m' \<in> set (fst (movie_loop up page (Suc i) ms [])) \<Longrightarrow> ?case"
  proof -
    assume "m' \<in> set (fst (movie_loop up page (Suc i) ms []))"
    from Cons.IH[OF this] obtain j where "j < length ms" "kept up page (Suc i + j) (ms ! j) = Some m'"
      by blast
    then have "Suc j < length (m # ms) \<and> kept up page (i + Suc j) ((m # ms) ! Suc j) = Some m'"
      by simp
    then show ?case by blast
  qed
  have here: "kept up page i m = Some m' \<Longrightarrow> ?case"
    by (rule exI[of _ 0]) simp
  show ?case
  proof (cases "kept up page i m")
    case None
    with Cons.prems have "m' \<in> set (fst (movie_loop up page (Suc i) ms []))"
      by (auto simp: kept_def split: sum.splits option.splits if_splits)
    then show ?thesis by (rule later)
  next
    case (Some x)
    then have "fst (movie_loop up page i (m # ms) []) = x # fst (movie_loop up page (Suc i) ms [])"
      using movie_loop_append[of up page "Suc i" ms "[x]"]
      by (auto simp: kept_def split: sum.splits option.splits if_splits)
    with Cons.prems have "m' = x \<or> m' \<in> set (fst (movie_loop up page (Suc i) ms []))" by auto
    then show ?thesis using here later Some by auto
  qed
qed

lemma page_body_eq:
  "page_body up page st =
     (st\<lparr>final_movies := final_movies st @ page_movies up page, checked := checked st @ [page]\<rparr>,
      page_flow up page)"
  unfolding page_movies_def page_flow_def page_body_def Let_def
  using movie_loop_append[of up page 0 _ "final_movies st"]
  by (auto split: sum.splits prod.splits option.splits)

lemma iterate_falsy: "\<not> truthy v \<Longrightarrow> iterate v = Inr xs \<Longrightarrow> xs = []"
  by (cases v) auto

lemma page_movies_records:
  "page_movies up page = fst (movie_loop up page 0 (records up page) [])"
  unfolding page_movies_def page_body_def records_def Let_def
  by (auto simp: and_then_Inr and_then_Inl dest: iterate_falsy split: sum.splits prod.splits option.splits)

lemma page_loop_eq:
  "page_loop up ps st =
     st\<lparr>final_movies := final_movies st @ concat (map (page_movies up) (visited up ps)),
        checked := checked st @ visited up ps\<rparr>"
proof (induction ps arbitrary: st)
  case Nil
  then show ?case by simp
next
  case (Cons p ps)
  show ?case
    by (cases "page_flow up p") (simp_all add: page_body_eq Cons.IH)
qed

lemma example_kept:
  "kept example_upstream 1 0 (record_of 1 ''A'') = Some (entry_of 1 ''A'' ''tt0000001'')"
  "kept example_upstream 1 1 (record_of 4 ''D'') = None"
  "kept example_upstream 1 2 (record_of 2 ''B'') = Some (entry_of 2 ''B'' ''tt0000001'')"
  "kept example_upstream 1 3 (record_of 3 ''C'') = Some (entry_of 3 ''C'' ''tt0000002'')"
  by (simp_all add: kept_def check_ott_def example_upstream_def record_of_def entry_of_def
      offers_def get_def json_def)

lemma example_page_body:
  "page_body example_upstream 1 st =
     (st\<lparr>final_movies := final_movies st @
           [entry_of 1 ''A'' ''tt0000001'', entry_of 2 ''B'' ''tt0000001'', entry_of 3 ''C'' ''tt0000002''],
         checked := checked st @ [1]\<rparr>, Continue)"
  "page_body example_upstream 2 st = (st\<lparr>checked := checked st @ [2]\<rparr>, Break)"
  by (simp_all add: page_body_def check_ott_def example_upstream_def record_of_def entry_of_def
      offers_def get_def json_def)

lemma first_pages: "[1..<1000::nat] = 1 # 2 # [3..<1000]"
proof -
  have "[1..<1000::nat] = 1 # [Suc 1..<1000]" by (rule upt_conv_Cons) simp
  also have "[Suc 1..<1000::nat] = Suc 1 # [Suc (Suc 1)..<1000]" by (rule upt_conv_Cons) simp
  finally show ?thesis by (simp only: Suc_1 Suc_numeral semiring_norm)
qed

lemma example_pages:
  "pages example_upstream =
     \<lparr>final_movies = [entry_of 1 ''A'' ''tt0000001'', entry_of 2 ''B'' ''tt0000001'', entry_of 3 ''C'' ''tt0000002''],
      checked = [1, 2]\<rparr>"
  unfolding pages_def first_pages
  by (simp only: page_loop.simps example_page_body prod.case flow.case) simp

lemma example_fetch:
  "fetch_and_cache_movies fmt example_upstream (PStr ''k'') ''ml'' Map.empty =
     Inr ([''k_ml'' \<mapsto> [entry_of 1 ''A'' ''tt0000001'', entry_of 3 ''C'' ''tt0000002'']],
          [entry_of 1 ''A'' ''tt0000001'', entry_of 3 ''C'' ''tt0000002''])"
  by (simp add: fetch_and_cache_movies_def example_pages cache_key_of_def fstring_def
      entry_of_def get_def not_in_def)

lemma kept_stored:
  assumes "kept up page i m = Some m'"
  shows "stored m'"
proof -
  from assms obtain movie_id title where
    g: "get m ''id'' = Inr movie_id" "get m ''title'' = Inr title" "truthy title"
    and c: "check_ott up page i movie_id m = Inr (Some m')"
    by (auto simp: kept_def split: sum.splits if_splits option.splits)
  from g(1) obtain kvs where m: "m = PDict kvs"
    by (cases m) (auto simp: get_def)
  from check_ott_Some[OF c] obtain s where
    s: "prefix ''tt'' s" "setitem m ''imdb_id'' (PStr s) = Inr m'" by blast
  from s(2) m have m': "m' = PDict (AList.update (PStr ''imdb_id'') (PStr s) kvs)" by simp
  have "field ''imdb_id'' m' = PStr s"
    by (simp add: m' field_def get_def update_conv')
  moreover have "field ''title'' m' = title"
    using g(2) by (simp add: m m' field_def get_def update_conv')
  ultimately show ?thesis using s(1) g(3) by (simp add: stored_def m')
qed

lemma page_movies_stored: "m \<in> set (page_movies up page) \<Longrightarrow> stored m"
  unfolding page_movies_records by (auto dest!: movie_loop_members kept_stored)

lemma final_movies_stored: "m \<in> set (final_movies (pages up)) \<Longrightarrow> stored m"
  by (auto simp: pages_def page_loop_eq dest: page_movies_stored)

lemma fetch_eq:
  "fetch_and_cache_movies fmt up api_key language cache =
     Inr (cache(cache_key_of fmt api_key language \<mapsto> first_seen [] (final_movies (pages up))),
          first_seen [] (final_movies (pages up)))"
  using dedup_loop_stored[of "final_movies (pages up)" "[]" "[]"] final_movies_stored[of _ up]
  by (simp add: fetch_and_cache_movies_def)

lemma visited_prefix: "prefix (visited up ps) ps"
  by (induction ps) auto

lemma visited_break: "page_flow up p = Break \<Longrightarrow> prefix (visited up (xs @ p # ys)) (xs @ [p])"
  by (induction xs) auto

lemma visited_reached:
  "p \<in> set (visited up ps) \<Longrightarrow> page_flow up p = Break \<Longrightarrow>
   visited up ps = takeWhile (\<lambda>q. q \<noteq> p) ps @ [p]"
  by (induction ps) (auto split: if_splits)

lemma visited_all: "\<forall>p\<in>set ps. page_flow up p = Continue \<Longrightarrow> visited up ps = ps"
  by (induction ps) auto

lemma upt_split: "i \<le> p \<Longrightarrow> p < j \<Longrightarrow> [i..<j] = [i..<p] @ p # [Suc p..<j]"
  by (metis le_Suc_ex less_imp_le_nat upt_add_eq_append upt_conv_Cons)

lemma takeWhile_upt: "i \<le> p \<Longrightarrow> p < j \<Longrightarrow> takeWhile (\<lambda>q. q \<noteq> p) [i..<j] = [i..<p]"
proof -
  assume a: "i \<le> p" "p < j"
  have "takeWhile (\<lambda>q. q \<noteq> p) ([i..<p] @ p # [Suc p..<j]) = takeWhile (\<lambda>q. q \<noteq> p) [i..<p]"
    by (rule takeWhile_tail) simp
  also have "\<dots> = [i..<p]" by (rule takeWhile_eq_all_conv[THEN iffD2]) simp
  finally show ?thesis using upt_split[OF a] by simp
qed

lemma prefix_upt: "prefix xs [i..<j] \<Longrightarrow> xs = [i..<i + length xs] \<and> i + length xs \<le> max i j"
proof -
  assume "prefix xs [i..<j]"
  then obtain ys where eq: "[i..<j] = xs @ ys" by (auto simp: prefix_def)
  then have len: "length xs \<le> j - i" by (metis length_append length_upt le_add1)
  have "xs = take (length xs) [i..<j]" using eq by simp
  also have "\<dots> = [i..<i + length xs]"
  proof (cases "length xs = 0")
    case True then show ?thesis by simp
  next
    case False
    with len have "i + length xs \<le> j" by arith
    then show ?thesis by (rule take_upt)
  qed
  finally show ?thesis using len by auto
qed

lemma page_fails_flow: "page_fails up p \<Longrightarrow> page_flow up p = Break \<and> page_movies up p = []"
  by (auto simp: page_fails_def page_flow_def page_movies_def page_body_def split: sum.splits)

lemma zero_records_flow: "zero_records up p \<Longrightarrow> page_flow up p = Break"
  by (auto simp: zero_records_def page_flow_def page_body_def split: sum.splits)

lemma checked_pages: "checked (pages up) = visited up [1..<1000]"
  by (simp add: pages_def page_loop_eq)

lemma collected_pages: "final_movies (pages up) = concat (map (page_movies up) (visited up [1..<1000]))"
  by (simp add: pages_def page_loop_eq)

lemma first_seen_subset: "set (first_seen seen ms) \<subseteq> set ms"
  by (induction ms arbitrary: seen) auto

lemma fetch_result:
  assumes "fetch_and_cache_movies fmt up api_key language cache = Inr (cache', unique_movies)"
  shows "unique_movies = first_seen [] (final_movies (pages up))"
    and "cache' = cache(cache_key_of fmt api_key language \<mapsto> unique_movies)"
  using assms unfolding fetch_eq by auto

text \<open>
  C3. The list that \<^verbatim>\<open>fetch_and_cache_movies\<close> writes into the cache has no two
  entries with the same IMDb identifier; it keeps the order of \<^verbatim>\<open>final_movies\<close>,
  every identifier collected is kept, and the entry kept for an identifier is the first
  one collected with it.
\<close>

theorem dedup_first_occurrence:
  assumes "fetch_and_cache_movies fmt up api_key language cache = Inr (cache', unique_movies)"
  shows "cache' (cache_key_of fmt api_key language) = Some unique_movies \<and>
         distinct (map (field ''imdb_id'') unique_movies) \<and>
         subseq unique_movies (final_movies (pages up)) \<and>
         set (map (field ''imdb_id'') unique_movies) = set (map (field ''imdb_id'') (final_movies (pages up))) \<and>
         (\<forall>m\<in>set unique_movies.
            find (\<lambda>x. field ''imdb_id'' x = field ''imdb_id'' m) (final_movies (pages up)) = Some m)"
proof -
  note r = fetch_result[OF assms]
  have "cache' (cache_key_of fmt api_key language) = Some unique_movies"
    by (simp add: r(2))
  moreover have "distinct (map (field ''imdb_id'') unique_movies)"
    unfolding r(1) by (rule first_seen_distinct)
  moreover have "subseq unique_movies (final_movies (pages up))"
    unfolding r(1) by (rule first_seen_subseq)
  moreover have "set (map (field ''imdb_id'') unique_movies) = set (map (field ''imdb_id'') (final_movies (pages up)))"
    unfolding r(1) first_seen_ids by simp
  moreover have "\<forall>m\<in>set unique_movies.
      find (\<lambda>x. field ''imdb_id'' x = field ''imdb_id'' m) (final_movies (pages up)) = Some m"
    unfolding r(1) by (blast intro: first_seen_find)
  ultimately show ?thesis by blast
qed

theorem dedup_first_occurrence_witness:
  "fetch_and_cache_movies (\<lambda>x. []) example_upstream (PStr ''k'') ''ml'' Map.empty =
     Inr ([''k_ml'' \<mapsto> [entry_of 1 ''A'' ''tt0000001'', entry_of 3 ''C'' ''tt0000002'']],
          [entry_of 1 ''A'' ''tt0000001'', entry_of 3 ''C'' ''tt0000002'']) \<and>
   final_movies (pages example_upstream) =
     [entry_of 1 ''A'' ''tt0000001'', entry_of 2 ''B'' ''tt0000001'', entry_of 3 ''C'' ''tt0000002''] \<and>
   field ''imdb_id'' (entry_of 2 ''B'' ''tt0000001'') = field ''imdb_id'' (entry_of 1 ''A'' ''tt0000001'') \<and>
   find (\<lambda>x. field ''imdb_id'' x = field ''imdb_id'' (entry_of 1 ''A'' ''tt0000001''))
        (final_movies (pages example_upstream)) = Some (entry_of 1 ''A'' ''tt0000001'') \<and>
   distinct (map (field ''imdb_id'') [entry_of 1 ''A'' ''tt0000001'', entry_of 3 ''C'' ''tt0000002''])"
  using dedup_first_occurrence[OF example_fetch[of "\<lambda>x. []"]]
  by (simp add: example_fetch example_pages) (simp add: entry_of_def field_def get_def)

text \<open>
  C4. Every entry of a cached list is an eligible record: it is a record of some
  discovery page whose provider lookup showed a flatrate offer for India and whose
  external-id lookup gave an identifier that is a non-empty string starting with
  \<^verbatim>\<open>tt\<close>, and it carries that identifier. So a record without such an identifier
  is in no cached list.
\<close>

theorem cached_items_eligible:
  assumes "fetch_and_cache_movies fmt up api_key language cache = Inr (cache', unique_movies)"
    and "m \<in> set unique_movies"
  shows "\<exists>page i s. 1 \<le> page \<and> page < 1000 \<and> i < length (records up page) \<and>
           flatrate_available (watch_providers up page i (field ''id'' (records up page ! i))) \<and>
           imdb_answer (external_ids up page i (field ''id'' (records up page ! i))) = Some (PStr s) \<and>
           s \<noteq> [] \<and> prefix ''tt'' s \<and>
           setitem (records up page ! i) ''imdb_id'' (PStr s) = Inr m \<and>
           field ''imdb_id'' m = PStr s"
proof -
  have "m \<in> set (final_movies (pages up))"
    using assms(2) first_seen_subset unfolding fetch_result(1)[OF assms(1)] by blast
  then obtain page where page: "page \<in> set (visited up [1..<1000])" and m: "m \<in> set (page_movies up page)"
    unfolding collected_pages by auto
  from page have range: "1 \<le> page \<and> page < 1000"
    using set_mono_prefix[OF visited_prefix[of up "[1..<1000]"]] by auto
  from m obtain i where i: "i < length (records up page)"
    and k: "kept up page i (records up page ! i) = Some m"
    unfolding page_movies_records by (auto dest: movie_loop_members)
  let ?raw = "records up page ! i"
  from k obtain movie_id where g: "get ?raw ''id'' = Inr movie_id"
    and c: "check_ott up page i movie_id ?raw = Inr (Some m)"
    by (auto simp: kept_def split: sum.splits if_splits option.splits)
  have f: "field ''id'' ?raw = movie_id" using g by (simp add: field_def)
  from check_ott_Some[OF c] obtain s where s: "flatrate_available (watch_providers up page i movie_id)"
    "imdb_answer (external_ids up page i movie_id) = Some (PStr s)" "prefix ''tt'' s"
    "setitem ?raw ''imdb_id'' (PStr s) = Inr m" by blast
  from s(4) have "field ''imdb_id'' m = PStr s"
    by (cases ?raw) (auto simp: field_def get_def update_conv')
  moreover from s(3) have "s \<noteq> []" by auto
  ultimately show ?thesis using range i s f by blast
qed

theorem cached_items_eligible_witness:
  "fetch_and_cache_movies (\<lambda>x. []) example_upstream (PStr ''k'') ''ml'' Map.empty =
     Inr ([''k_ml'' \<mapsto> [entry_of 1 ''A'' ''tt0000001'', entry_of 3 ''C'' ''tt0000002'']],
          [entry_of 1 ''A'' ''tt0000001'', entry_of 3 ''C'' ''tt0000002'']) \<and>
   entry_of 3 ''C'' ''tt0000002'' \<in> set [entry_of 1 ''A'' ''tt0000001'', entry_of 3 ''C'' ''tt0000002''] \<and>
   (\<exists>page i s. 1 \<le> page \<and> page < 1000 \<and> i < length (records example_upstream page) \<and>
      flatrate_available (watch_providers example_upstream page i (field ''id'' (records example_upstream page ! i))) \<and>
      imdb_answer (external_ids example_upstream page i (field ''id'' (records example_upstream page ! i))) = Some (PStr s) \<and>
      s \<noteq> [] \<and> prefix ''tt'' s \<and>
      setitem (records example_upstream page ! i) ''imdb_id'' (PStr s) = Inr (entry_of 3 ''C'' ''tt0000002'') \<and>
      field ''imdb_id'' (entry_of 3 ''C'' ''tt0000002'') = PStr s)"
  using cached_items_eligible[OF example_fetch[of "\<lambda>x. []"], of "entry_of 3 ''C'' ''tt0000002''"]
  by (simp add: example_fetch)

lemma first_page_break:
  assumes "page_flow up 1 = Break"
  shows "visited up [1..<1000] = [1]"
  unfolding first_pages using assms by (simp only: visited.simps if_True simp_thms)

text \<open>
  C5. Every run of \<^verbatim>\<open>fetch_and_cache_movies\<close> returns without an exception and
  has written a list under its cache key; when the first discovery page fails, the list
  is empty.
\<close>

theorem run_always_writes:
  "\<exists>unique_movies.
     fetch_and_cache_movies fmt up api_key language cache =
       Inr (cache(cache_key_of fmt api_key language \<mapsto> unique_movies), unique_movies) \<and>
     (page_fails up 1 \<longrightarrow> unique_movies = [])"
proof -
  have "page_fails up 1 \<Longrightarrow> final_movies (pages up) = []"
    using page_fails_flow[of up 1] first_page_break[of up] by (simp add: collected_pages)
  then have "page_fails up 1 \<longrightarrow> first_seen [] (final_movies (pages up)) = []" by auto
  then show ?thesis using fetch_eq[of fmt up api_key language cache] by blast
qed

theorem run_always_writes_witness:
  "page_fails unreachable_upstream 1 \<and>
   fetch_and_cache_movies (\<lambda>x. []) unreachable_upstream (PStr ''k'') ''ml'' Map.empty =
     Inr ([''k_ml'' \<mapsto> []], [])"
proof -
  have f: "page_fails unreachable_upstream 1"
    by (simp add: page_fails_def unreachable_upstream_def)
  from run_always_writes[of "\<lambda>x. []" unreachable_upstream "PStr ''k''" "''ml''" Map.empty] f
  show ?thesis by (auto simp: cache_key_of_def fstring_def)
qed

text \<open>
  C6. When a discovery page that the run requests is a transport failure or a
  non-success response, the run requests no further page and does not request that page
  again, \<^verbatim>\<open>final_movies\<close> is what the pages before it collected, and that list,
  deduplicated, is written to the cache; no exception leaves the function.
\<close>

theorem page_failure_keeps_collected:
  assumes "page \<in> set (checked (pages up))" and "page_fails up page"
  shows "checked (pages up) = [1..<Suc page] \<and>
         final_movies (pages up) = concat (map (page_movies up) [1..<page]) \<and>
         (\<exists>unique_movies.
            dedup_loop (concat (map (page_movies up) [1..<page])) [] [] = Inr unique_movies \<and>
            fetch_and_cache_movies fmt up api_key language cache =
              Inr (cache(cache_key_of fmt api_key language \<mapsto> unique_movies), unique_movies))"
proof -
  from assms(2) have br: "page_flow up page = Break" and none: "page_movies up page = []"
    using page_fails_flow by auto
  from assms(1) have v: "page \<in> set (visited up [1..<1000])" by (simp add: checked_pages)
  then have range: "1 \<le> page" "page < 1000"
    using set_mono_prefix[OF visited_prefix[of up "[1..<1000]"]] by auto
  have vis: "visited up [1..<1000] = [1..<page] @ [page]"
    using visited_reached[OF v br] takeWhile_upt[OF range] by simp
  have c: "checked (pages up) = [1..<Suc page]"
    using vis range by (simp add: checked_pages)
  have f: "final_movies (pages up) = concat (map (page_movies up) [1..<page])"
    using vis none by (simp add: collected_pages)
  have d: "dedup_loop (final_movies (pages up)) [] [] = Inr (first_seen [] (final_movies (pages up)))"
    using dedup_loop_stored[of "final_movies (pages up)" "[]" "[]"] final_movies_stored[of _ up] by simp
  show ?thesis
    using c f d fetch_eq[of fmt up api_key language cache] by auto
qed

theorem page_failure_keeps_collected_witness:
  "2 \<in> set (checked (pages example_upstream)) \<and> page_fails example_upstream 2 \<and>
   checked (pages example_upstream) = [1, 2] \<and>
   final_movies (pages example_upstream) =
     [entry_of 1 ''A'' ''tt0000001'', entry_of 2 ''B'' ''tt0000001'', entry_of 3 ''C'' ''tt0000002''] \<and>
   fetch_and_cache_movies (\<lambda>x. []) example_upstream (PStr ''k'') ''ml'' Map.empty =
     Inr ([''k_ml'' \<mapsto> [entry_of 1 ''A'' ''tt0000001'', entry_of 3 ''C'' ''tt0000002'']],
          [entry_of 1 ''A'' ''tt0000001'', entry_of 3 ''C'' ''tt0000002''])"
proof -
  have r: "2 \<in> set (checked (pages example_upstream))" by (simp add: example_pages)
  have f: "page_fails example_upstream 2" by (simp add: page_fails_def example_upstream_def)
  from page_failure_keeps_collected[OF r f, of "\<lambda>x. []" "PStr ''k''" "''ml''" Map.empty]
  show ?thesis using r f
    by (simp add: example_pages example_fetch)
qed

text \<open>
  C7. On a page that answers with a non-empty list of records, each record contributes
  on its own: a record whose enrichment lookups raise is skipped, the records after it
  are still processed, and the page loop continues with the next page.
\<close>

theorem item_failure_isolated:
  assumes "discover up page = Inr response" and "status_code response = 200"
    and "json response = Inr data"
    and "get_default data ''results'' (PList []) = Inr (PList movies)" and "movies \<noteq> []"
    and "\<forall>m\<in>set movies. \<exists>kvs. m = PDict kvs"
  shows "page_body up page st =
           (st\<lparr>final_movies := final_movies st @
                   List.map_filter (\<lambda>(i, m). kept up page i m) (enumerate 0 movies),
               checked := checked st @ [page]\<rparr>, Continue) \<and>
         (\<forall>i<length movies. enrichment_fails up page i (movies ! i) \<longrightarrow>
            kept up page i (movies ! i) = None)"
proof -
  have "page_body up page st =
           (st\<lparr>final_movies := final_movies st @
                   List.map_filter (\<lambda>(i, m). kept up page i m) (enumerate 0 movies),
               checked := checked st @ [page]\<rparr>, Continue)"
    using assms(1-5) movie_loop_dicts[OF assms(6), of up page 0 "final_movies st"]
    by (simp add: page_body_def)
  moreover have "\<forall>i<length movies. enrichment_fails up page i (movies ! i) \<longrightarrow>
            kept up page i (movies ! i) = None"
    by (auto simp: enrichment_fails_def kept_def field_def isl_def split: sum.splits)
  ultimately show ?thesis by blast
qed

theorem item_failure_isolated_witness:
  "page_body example_upstream 1 \<lparr>final_movies = [], checked = []\<rparr> =
     (\<lparr>final_movies = [entry_of 1 ''A'' ''tt0000001'', entry_of 2 ''B'' ''tt0000001'',
                        entry_of 3 ''C'' ''tt0000002''],
       checked = [1]\<rparr>, Continue) \<and>
   enrichment_fails example_upstream 1 1 (record_of 4 ''D'') \<and>
   kept example_upstream 1 1 (record_of 4 ''D'') = None \<and>
   kept example_upstream 1 2 (record_of 2 ''B'') = Some (entry_of 2 ''B'' ''tt0000001'')"
proof -
  let ?movies = "[record_of 1 ''A'', record_of 4 ''D'', record_of 2 ''B'', record_of 3 ''C'']"
  let ?data = "PDict [(PStr ''results'', PList ?movies)]"
  have 1: "discover example_upstream 1 = Inr (Response 200 (Some ?data))"
    by (simp add: example_upstream_def)
  have 2: "status_code (Response 200 (Some ?data)) = 200" by simp
  have 3: "json (Response 200 (Some ?data)) = Inr ?data" by (simp add: json_def)
  have 4: "get_default ?data ''results'' (PList []) = Inr (PList ?movies)" by simp
  have 5: "?movies \<noteq> []" by simp
  have 6: "\<forall>m\<in>set ?movies. \<exists>kvs. m = PDict kvs" by (simp add: record_of_def)
  have e: "enrichment_fails example_upstream 1 1 (record_of 4 ''D'')"
    by (simp add: enrichment_fails_def check_ott_def example_upstream_def record_of_def
        field_def get_def)
  from item_failure_isolated[OF 1 2 3 4 5 6, of "\<lparr>final_movies = [], checked = []\<rparr>"]
  have "\<forall>i<length ?movies. enrichment_fails example_upstream 1 i (?movies ! i) \<longrightarrow>
          kept example_upstream 1 i (?movies ! i) = None"
    by (rule conjunct2)
  then have "1 < length ?movies \<longrightarrow> enrichment_fails example_upstream 1 1 (?movies ! 1) \<longrightarrow>
          kept example_upstream 1 1 (?movies ! 1) = None"
    by (rule spec)
  with e have k: "kept example_upstream 1 1 (record_of 4 ''D'') = None" by simp
  show ?thesis
    using e k example_page_body(1)[of "\<lparr>final_movies = [], checked = []\<rparr>"] example_kept(3)
    by simp
qed

text \<open>
  C8. The pages requested by a run are 1, 2, ... up to some page that is at most 999;
  nothing is requested beyond a page that is a transport failure, a non-success response
  or has zero records. This holds for every source, also one whose pages never end.
\<close>

theorem pagination_terminates:
  "checked (pages up) = [1..<Suc (length (checked (pages up)))] \<and>
   1 \<le> length (checked (pages up)) \<and> length (checked (pages up)) \<le> 999 \<and>
   (\<forall>page\<in>{1..999}. page_fails up page \<or> zero_records up page \<longrightarrow>
      length (checked (pages up)) \<le> page)"
proof -
  let ?v = "visited up [1..<1000]"
  have p: "prefix ?v [1..<1000]" by (rule visited_prefix)
  from prefix_upt[OF p] have shape: "?v = [1..<Suc (length ?v)]" and len: "length ?v \<le> 999"
    by auto
  have "?v \<noteq> []" unfolding first_pages by (simp only: visited.simps) simp
  then have pos: "1 \<le> length ?v" by (cases ?v) auto
  have stop: "length ?v \<le> page" if "page \<in> {1..999}" "page_fails up page \<or> zero_records up page" for page
  proof -
    from that(2) have br: "page_flow up page = Break"
      using page_fails_flow zero_records_flow by blast
    from that(1) have split: "[1..<1000] = [1..<page] @ page # [Suc page..<1000]"
      by (intro upt_split) auto
    have "prefix ?v ([1..<page] @ [page])"
      unfolding split by (rule visited_break[OF br])
    then have "length ?v \<le> length ([1..<page] @ [page])" by (rule prefix_length_le)
    then show ?thesis using that(1) by simp
  qed
  show ?thesis
    unfolding checked_pages using shape pos len stop by blast
qed

theorem pagination_terminates_witness:
  "2 \<in> {1..999::nat} \<and> page_fails example_upstream 2 \<and>
   checked (pages example_upstream) = [1, 2] \<and> length (checked (pages example_upstream)) \<le> 2"
proof -
  have f: "page_fails example_upstream 2" by (simp add: page_fails_def example_upstream_def)
  from pagination_terminates[of example_upstream] f
  have "length (checked (pages example_upstream)) \<le> 2" by auto
  then show ?thesis using f by (simp add: example_pages)
qed

lemma example_config:
  "decode_user_config zero_float ''eyJhcGlfa2V5IjogImsifQ=='' = PDict [(PStr ''api_key'', PStr ''k'')]"
  by code_simp



lemma example_int: "py_int ''abc'' = Inl ValueError" "py_int ''1'' = Inr 1"
  by code_simp+

lemma example_credential:
  "credential zero_float ''eyJhcGlfa2V5IjogImsifQ=='' = Some (PStr ''k'')"
  by (simp add: credential_def example_config)

lemma credential_D:
  assumes "credential float_of config_string = Some api_key"
  shows "truthy (decode_user_config float_of config_string)"
    and "contains ''api_key'' (decode_user_config float_of config_string) = Inr True"
    and "subscript (decode_user_config float_of config_string) ''api_key'' = Inr api_key"
  using assms by (auto simp: credential_def Let_def split: if_splits sum.splits)

lemma catalog_valid:
  assumes "credential float_of config_string = Some api_key"
  shows "catalog fmt float_of config_string language skip_arg s =
     and_then (case skip_arg of None \<Rightarrow> Inr 0 | Some text \<Rightarrow> py_int text) (\<lambda>skip.
       case movie_cache s (cache_key_of fmt api_key language) of
         None \<Rightarrow> Inr (Reply 200 (metas_json []), s\<lparr>threads := threads s @ [(api_key, language)]\<rparr>)
       | Some cached_movies \<Rightarrow>
           Inr (Reply 200 (metas_json (filter truthy (map (to_stremio_meta fmt)
                  (slice cached_movies skip (skip + 100))))), s))"
  using credential_D[OF assms] by (simp add: catalog_def Let_def cong: option.case_cong)

lemma slice_page: "0 \<le> skip \<Longrightarrow> slice xs skip (skip + 100) = take 100 (drop (nat skip) xs)"
  by (auto simp: slice_def Let_def min_def max_def nat_diff_distrib nat_add_distrib)

lemma image_url_dict: "\<exists>u. image_url fmt base (PDict kvs) k = Inr u"
  by (cases "map_of kvs (PStr k)") (auto simp: image_url_def get_def)

lemma stored_meta:
  assumes "stored m"
  shows "truthy (to_stremio_meta fmt m)" and "field ''id'' (to_stremio_meta fmt m) = field ''imdb_id'' m"
proof -
  from assms obtain kvs s where m: "m = PDict kvs" and i: "field ''imdb_id'' m = PStr s"
    and p: "prefix ''tt'' s" and t: "truthy (field ''title'' m)"
    using stored_D by blast
  from p have ne: "s \<noteq> []" by auto
  obtain poster where po: "image_url fmt ''https://image.tmdb.org/t/p/w500'' m ''poster_path'' = Inr poster"
    using image_url_dict unfolding m by blast
  obtain background where ba: "image_url fmt ''https://image.tmdb.org/t/p/w780'' m ''backdrop_path'' = Inr background"
    using image_url_dict unfolding m by blast
  have meta: "to_stremio_meta fmt m =
      PDict [(PStr ''id'', PStr s), (PStr ''type'', PStr ''movie''), (PStr ''name'', field ''title'' m),
             (PStr ''poster'', poster),
             (PStr ''description'', case map_of kvs (PStr ''overview'') of None \<Rightarrow> PStr [] | Some v \<Rightarrow> v),
             (PStr ''releaseInfo'', case map_of kvs (PStr ''release_date'') of None \<Rightarrow> PStr [] | Some v \<Rightarrow> v),
             (PStr ''background'', background)]"
    using i t ne po ba by (simp add: to_stremio_meta_def m field_def get_def)
  show "truthy (to_stremio_meta fmt m)" by (simp add: meta)
  show "field ''id'' (to_stremio_meta fmt m) = field ''imdb_id'' m"
    by (simp add: meta i) (simp add: field_def get_def)
qed

lemma fetched_stored:
  assumes "fetch_and_cache_movies fmt up api_key language cache = Inr (cache', unique_movies)"
    and "m \<in> set unique_movies"
  shows "stored m"
  using assms first_seen_subset final_movies_stored unfolding fetch_result(1)[OF assms(1)] by blast

text \<open>
  C1 as it is stated does not hold. The handler starts a fetch whenever the key has no
  list in the cache, and a fetch writes its list only when it ends: a second read that
  arrives while the first read's fetch is running starts a second fetch for the same key.
\<close>

theorem two_reads_two_fetches:
  "catalog plain_format zero_float ''eyJhcGlfa2V5IjogImsifQ=='' ''ml'' None
       \<lparr>movie_cache = Map.empty, threads = []\<rparr> =
     Inr (Reply 200 (metas_json []), \<lparr>movie_cache = Map.empty, threads = [(PStr ''k'', ''ml'')]\<rparr>) \<and>
   catalog plain_format zero_float ''eyJhcGlfa2V5IjogImsifQ=='' ''ml'' None
       \<lparr>movie_cache = Map.empty, threads = [(PStr ''k'', ''ml'')]\<rparr> =
     Inr (Reply 200 (metas_json []),
          \<lparr>movie_cache = Map.empty, threads = [(PStr ''k'', ''ml''), (PStr ''k'', ''ml'')]\<rparr>)"
  by (simp add: catalog_valid[OF example_credential])

text \<open>
  C1, amended. A catalog read with a valid configuration, whose \<^verbatim>\<open>skip\<close>
  parameter is absent or converts to an integer, starts a background fetch exactly when
  its key has no list in the cache, one fetch for such a read and none otherwise; and a
  fetch that has finished leaves a list under its key, so that the reads after it start
  none.
\<close>

theorem fetch_started_on_miss_only:
  assumes "credential float_of config_string = Some api_key"
    and "(case skip_arg of None \<Rightarrow> Inr 0 | Some text \<Rightarrow> py_int text) = Inr skip"
  shows "(\<exists>reply. catalog fmt float_of config_string language skip_arg s =
            Inr (reply, s\<lparr>threads := threads s @
                   (if movie_cache s (cache_key_of fmt api_key language) = None
                    then [(api_key, language)] else [])\<rparr>)) \<and>
         movie_cache (thread_finishes fmt up (api_key, language) s)
            (cache_key_of fmt api_key language) \<noteq> None"
proof -
  have "\<exists>reply. catalog fmt float_of config_string language skip_arg s =
            Inr (reply, s\<lparr>threads := threads s @
                   (if movie_cache s (cache_key_of fmt api_key language) = None
                    then [(api_key, language)] else [])\<rparr>)"
    unfolding catalog_valid[OF assms(1)] assms(2)
    by (cases "movie_cache s (cache_key_of fmt api_key language)") simp_all
  moreover have "movie_cache (thread_finishes fmt up (api_key, language) s)
            (cache_key_of fmt api_key language) \<noteq> None"
    by (simp add: thread_finishes_def fetch_eq)
  ultimately show ?thesis by blast
qed

theorem fetch_started_on_miss_only_witness:
  "credential zero_float ''eyJhcGlfa2V5IjogImsifQ=='' = Some (PStr ''k'') \<and>
   catalog plain_format zero_float ''eyJhcGlfa2V5IjogImsifQ=='' ''ml'' None idle =
     Inr (Reply 200 (metas_json []), idle\<lparr>threads := [(PStr ''k'', ''ml'')]\<rparr>) \<and>
   movie_cache (thread_finishes plain_format example_upstream (PStr ''k'', ''ml'') idle) ''k_ml'' =
     Some [entry_of 1 ''A'' ''tt0000001'', entry_of 3 ''C'' ''tt0000002''] \<and>
   catalog plain_format zero_float ''eyJhcGlfa2V5IjogImsifQ=='' ''ml'' None
       (thread_finishes plain_format example_upstream (PStr ''k'', ''ml'') idle) =
     Inr (Reply 200 (metas_json (map (to_stremio_meta plain_format)
            [entry_of 1 ''A'' ''tt0000001'', entry_of 3 ''C'' ''tt0000002''])),
          thread_finishes plain_format example_upstream (PStr ''k'', ''ml'') idle)"
proof -
  have s: "(case None of None \<Rightarrow> Inr 0 | Some text \<Rightarrow> py_int text) = Inr 0" by simp
  have k: "cache_key_of plain_format (PStr ''k'') ''ml'' = ''k_ml''"
    by (simp add: cache_key_of_def fstring_def)
  have f: "thread_finishes plain_format example_upstream (PStr ''k'', ''ml'') idle =
      \<lparr>movie_cache = [''k_ml'' \<mapsto> [entry_of 1 ''A'' ''tt0000001'', entry_of 3 ''C'' ''tt0000002'']],
       threads = []\<rparr>"
    by (simp add: thread_finishes_def idle_def example_fetch)
  have m: "truthy (to_stremio_meta plain_format (entry_of 1 ''A'' ''tt0000001''))"
          "truthy (to_stremio_meta plain_format (entry_of 3 ''C'' ''tt0000002''))"
    by (simp_all add: to_stremio_meta_def image_url_def entry_of_def get_def)
  from fetch_started_on_miss_only[OF example_credential s, of plain_format "''ml''" idle example_upstream]
  have "\<exists>reply. catalog plain_format zero_float ''eyJhcGlfa2V5IjogImsifQ=='' ''ml'' None idle =
      Inr (reply, idle\<lparr>threads := [(PStr ''k'', ''ml'')]\<rparr>)"
    by (simp add: k idle_def)
  then have "catalog plain_format zero_float ''eyJhcGlfa2V5IjogImsifQ=='' ''ml'' None idle =
     Inr (Reply 200 (metas_json []), idle\<lparr>threads := [(PStr ''k'', ''ml'')]\<rparr>)"
    by (simp add: catalog_valid[OF example_credential] k idle_def)
  then show ?thesis
    using m by (simp add: example_credential f catalog_valid[OF example_credential] k slice_def)
qed

text \<open>
  C10. The conversion of line 491 is not guarded: when the configuration is valid and
  \<^verbatim>\<open>int\<close> raises on the text of the \<^verbatim>\<open>skip\<close> parameter, the exception leaves
  \<^verbatim>\<open>catalog\<close>; no reply is made and 0 is not used instead. The text
  \<^verbatim>\<open>abc\<close> is such a parameter.
\<close>

theorem skip_conversion_unguarded:
  assumes "credential float_of config_string = Some api_key" and "py_int text = Inl e"
  shows "catalog fmt float_of config_string language (Some text) s = Inl e"
  unfolding catalog_valid[OF assms(1)] using assms(2) by simp

theorem skip_conversion_unguarded_witness:
  "credential zero_float ''eyJhcGlfa2V5IjogImsifQ=='' = Some (PStr ''k'') \<and>
   py_int ''abc'' = Inl ValueError \<and>
   catalog plain_format zero_float ''eyJhcGlfa2V5IjogImsifQ=='' ''ml'' (Some ''abc'') idle = Inl ValueError \<and>
   catalog plain_format zero_float ''eyJhcGlfa2V5IjogImsifQ=='' ''ml'' None idle =
     Inr (Reply 200 (metas_json []), idle\<lparr>threads := [(PStr ''k'', ''ml'')]\<rparr>)"
  using skip_conversion_unguarded[OF example_credential example_int(1), of plain_format "''ml''" idle]
  by (simp add: example_credential example_int catalog_valid[OF example_credential] idle_def
      cache_key_of_def fstring_def)

text \<open>
  C2. For a cache entry written by \<^verbatim>\<open>fetch_and_cache_movies\<close> and a skip that is not
  negative, the catalog read answers with status 200 and the metas of the entries
  \<open>skip\<close> to \<open>skip + 100\<close> of the cached list, in their order and none left out:
  none when \<open>skip\<close> is at or beyond the length \<open>L\<close>, and \<open>min 100 (L - skip)\<close>
  otherwise.
\<close>

theorem catalog_page:
  assumes "credential float_of config_string = Some api_key"
    and "(case skip_arg of None \<Rightarrow> Inr 0 | Some text \<Rightarrow> py_int text) = Inr skip" and "0 \<le> skip"
    and "movie_cache s (cache_key_of fmt api_key language) = Some cached_movies"
    and "fetch_and_cache_movies fmt' up api_key' language' cache = Inr (cache', cached_movies)"
  shows "\<exists>metas.
           catalog fmt float_of config_string language skip_arg s =
             Inr (Reply 200 (metas_json metas), s) \<and>
           metas = map (to_stremio_meta fmt) (take 100 (drop (nat skip) cached_movies)) \<and>
           map (field ''id'') metas =
             map (field ''imdb_id'') (take 100 (drop (nat skip) cached_movies)) \<and>
           length metas = (if int (length cached_movies) \<le> skip then 0
                           else min 100 (length cached_movies - nat skip))"
proof -
  let ?page = "take 100 (drop (nat skip) cached_movies)"
  have st: "\<forall>m\<in>set ?page. stored m"
    using fetched_stored[OF assms(5)] by (meson in_set_dropD in_set_takeD)
  then have keep: "filter truthy (map (to_stremio_meta fmt) ?page) = map (to_stremio_meta fmt) ?page"
    by (auto simp: filter_id_conv stored_meta(1))
  have ids: "map (field ''id'') (map (to_stremio_meta fmt) ?page) = map (field ''imdb_id'') ?page"
    using st by (simp add: stored_meta(2))
  have len: "length (map (to_stremio_meta fmt) ?page) =
      (if int (length cached_movies) \<le> skip then 0 else min 100 (length cached_movies - nat skip))"
    using assms(3) by auto
  have "catalog fmt float_of config_string language skip_arg s =
      Inr (Reply 200 (metas_json (map (to_stremio_meta fmt) ?page)), s)"
    unfolding catalog_valid[OF assms(1)] assms(2)
    by (simp add: assms(4) slice_page[OF assms(3)] keep)
  then show ?thesis using ids len by blast
qed

theorem catalog_page_witness:
  "credential zero_float ''eyJhcGlfa2V5IjogImsifQ=='' = Some (PStr ''k'') \<and>
   py_int ''1'' = Inr 1 \<and>
   fetch_and_cache_movies plain_format example_upstream (PStr ''k'') ''ml'' Map.empty =
     Inr ([''k_ml'' \<mapsto> [entry_of 1 ''A'' ''tt0000001'', entry_of 3 ''C'' ''tt0000002'']],
          [entry_of 1 ''A'' ''tt0000001'', entry_of 3 ''C'' ''tt0000002'']) \<and>
   catalog plain_format zero_float ''eyJhcGlfa2V5IjogImsifQ=='' ''ml'' (Some ''1'')
       \<lparr>movie_cache = [''k_ml'' \<mapsto> [entry_of 1 ''A'' ''tt0000001'', entry_of 3 ''C'' ''tt0000002'']],
        threads = []\<rparr> =
     Inr (Reply 200 (metas_json [to_stremio_meta plain_format (entry_of 3 ''C'' ''tt0000002'')]),
          \<lparr>movie_cache = [''k_ml'' \<mapsto> [entry_of 1 ''A'' ''tt0000001'', entry_of 3 ''C'' ''tt0000002'']],
           threads = []\<rparr>) \<and>
   field ''id'' (to_stremio_meta plain_format (entry_of 3 ''C'' ''tt0000002'')) = PStr ''tt0000002''"
proof -
  let ?s = "\<lparr>movie_cache = [''k_ml'' \<mapsto> [entry_of 1 ''A'' ''tt0000001'', entry_of 3 ''C'' ''tt0000002'']],
             threads = []\<rparr>"
  have 2: "(case Some ''1'' of None \<Rightarrow> Inr 0 | Some text \<Rightarrow> py_int text) = Inr 1"
    by (simp add: example_int)
  have 3: "(0::int) \<le> 1" by simp
  have 4: "movie_cache ?s (cache_key_of plain_format (PStr ''k'') ''ml'') =
      Some [entry_of 1 ''A'' ''tt0000001'', entry_of 3 ''C'' ''tt0000002'']"
    by (simp add: cache_key_of_def fstring_def)
  have i: "field ''id'' (to_stremio_meta plain_format (entry_of 3 ''C'' ''tt0000002'')) = PStr ''tt0000002''"
    by (simp add: to_stremio_meta_def image_url_def entry_of_def get_def field_def)
  from catalog_page[OF example_credential 2 3 4 example_fetch[of plain_format]]
  show ?thesis
    using i by (auto simp: example_credential example_int example_fetch)
qed



















































lemma item_text:
  "encode_basestring_ascii key @ '': '' @ vt =
     CHR 0x22 # concat (map escape_char key) @ CHR 0x22 # CHR '':'' # CHR '' '' # vt"
  by (simp add: encode_basestring_ascii_def)








end
